theory Spec2Isabelle
  imports Complex_Main "HOL-Library.Sublist"
begin

section \<open>Batches and integer conversions\<close>

text \<open>
  A batch (\<^verbatim>\<open>using Bulk = std::list<std::string>\<close>) is a list of lines. The input
  stream read by \<^verbatim>\<open>std::getline\<close> is the list of its lines.
\<close>

type_synonym Bulk = "string list"

text \<open>
  The members \<^verbatim>\<open>m_bulkSize\<close>, \<^verbatim>\<open>m_roundRobin\<close> and the counters are C++
  \<^verbatim>\<open>int\<close>s; they are modelled as integers, and \<open>is_int\<close> says that a value lies in
  the range of a 32-bit \<^verbatim>\<open>int\<close>. Where the source compares an \<^verbatim>\<open>int\<close> with a
  \<^verbatim>\<open>size()\<close>, or passes it to \<^verbatim>\<open>at\<close>, the \<^verbatim>\<open>int\<close> is converted to the 64-bit
  unsigned \<^verbatim>\<open>size_t\<close> first: that conversion is \<open>size_t_of_int\<close>, reduction modulo
  \<open>2 ^ 64\<close>. A \<^verbatim>\<open>size()\<close> is the length of the list. The counters only ever
  grow; lemma \<open>counters_in_range\<close> below shows that they stay in the range of
  \<^verbatim>\<open>int\<close> on every input of fewer than \<open>2 ^ 31\<close> lines, where the integers of the model
  are then the values of the source.
\<close>

definition is_int :: "int \<Rightarrow> bool" where
  "is_int i \<longleftrightarrow> - (2 ^ 31) \<le> i \<and> i < 2 ^ 31"

definition size_t_of_int :: "int \<Rightarrow> nat" where
  "size_t_of_int i = nat (i mod 2 ^ 64)"

section \<open>Parser\<close>

datatype ParsingState = TopLevel | InBlock

text \<open>
  The class \<^verbatim>\<open>Parser\<close>. A subscriber (\<^verbatim>\<open>std::function<void(Bulk)>\<close>) acts on state that
  lives outside the parser; that state is the field \<open>world\<close>, of any type, and a
  subscriber is a function that takes the batch and the world and returns the new world.
  The field \<open>published\<close> is a history variable: \<open>publish\<close> appends to it each batch
  that it hands to the subscriber loop, and nothing reads it.
\<close>

record 'w Parser =
  m_subscribers :: "(Bulk \<Rightarrow> 'w \<Rightarrow> 'w) list"
  m_bulkSize :: int
  m_lineCount :: int
  m_commandCount :: int
  m_blockCount :: int
  world :: 'w
  published :: "Bulk list"

text \<open>The constructor \<^verbatim>\<open>Parser(int bulkSize)\<close>, given the world as it is at construction.\<close>

definition Parser_new :: "int \<Rightarrow> 'w \<Rightarrow> 'w Parser" where
  "Parser_new bulkSize w =
     \<lparr>m_subscribers = [], m_bulkSize = bulkSize, m_lineCount = 0, m_commandCount = 0,
      m_blockCount = 0, world = w, published = []\<rparr>"

definition subscribe :: "(Bulk \<Rightarrow> 'w \<Rightarrow> 'w) \<Rightarrow> ('w, 'z) Parser_scheme \<Rightarrow> ('w, 'z) Parser_scheme" where
  "subscribe callback p = p\<lparr>m_subscribers := m_subscribers p @ [callback]\<rparr>"

text \<open>
  \<^verbatim>\<open>void publish(Bulk &commands)\<close>: the reference parameter is an input and an output,
  so the function returns the batch as the caller sees it afterwards, with the parser.
\<close>

definition publish :: "Bulk \<Rightarrow> ('w, 'z) Parser_scheme \<Rightarrow> Bulk \<times> ('w, 'z) Parser_scheme" where
  "publish commands p =
     (if length commands = 0 then (commands, p)
      else ([], p\<lparr>m_commandCount := m_commandCount p + int (length commands),
                  m_blockCount := m_blockCount p + 1,
                  world := fold (\<lambda>subscriber. subscriber commands) (m_subscribers p) (world p),
                  published := published p @ [commands]\<rparr>))"

text \<open>
  The activation record of \<^verbatim>\<open>exec\<close>: the object it runs on, extended with the three
  local variables of the function.
\<close>

record 'w exec_frame = "'w Parser" +
  state :: ParsingState
  commands :: Bulk
  depthCounter :: int

text \<open>The statement \<^verbatim>\<open>publish(commands);\<close> inside \<^verbatim>\<open>exec\<close>.\<close>

definition publish_commands :: "'w exec_frame \<Rightarrow> 'w exec_frame" where
  "publish_commands f = (case publish (commands f) f of (c, f') \<Rightarrow> f'\<lparr>commands := c\<rparr>)"

text \<open>One iteration of the loop of \<^verbatim>\<open>exec\<close>, on the line that \<^verbatim>\<open>getline\<close> returned.\<close>

definition exec_line :: "string \<Rightarrow> 'w exec_frame \<Rightarrow> 'w exec_frame" where
  "exec_line line f0 =
     (let f = f0\<lparr>m_lineCount := m_lineCount f0 + 1\<rparr> in
      case state f of
        TopLevel \<Rightarrow>
          if line \<noteq> ''{'' then
            (let f1 = f\<lparr>commands := commands f @ [line]\<rparr> in
             if length (commands f1) = size_t_of_int (m_bulkSize f1)
             then publish_commands f1 else f1)
          else
            (let f1 = f\<lparr>depthCounter := depthCounter f + 1\<rparr>;
                 f2 = publish_commands f1
             in f2\<lparr>state := InBlock\<rparr>)
      | InBlock \<Rightarrow>
          if line \<noteq> ''}'' then
            (if line = ''{'' then f\<lparr>depthCounter := depthCounter f + 1\<rparr>
             else f\<lparr>commands := commands f @ [line]\<rparr>)
          else
            (let f1 = f\<lparr>depthCounter := depthCounter f - 1\<rparr> in
             if depthCounter f1 = 0
             then (publish_commands f1)\<lparr>state := TopLevel\<rparr>
             else f1))"

text \<open>The frame at the entry of \<^verbatim>\<open>exec\<close>, and the frame when the loop has read all lines.\<close>

definition exec_entry :: "'w Parser \<Rightarrow> 'w exec_frame" where
  "exec_entry p =
     \<lparr>m_subscribers = m_subscribers p, m_bulkSize = m_bulkSize p,
      m_lineCount = m_lineCount p, m_commandCount = m_commandCount p,
      m_blockCount = m_blockCount p, world = world p, published = published p,
      state = TopLevel, commands = [], depthCounter = 0\<rparr>"

definition exec_loop :: "'w Parser \<Rightarrow> string list \<Rightarrow> 'w exec_frame" where
  "exec_loop p lines = fold exec_line lines (exec_entry p)"

text \<open>
  \<^verbatim>\<open>exec\<close>: the loop, then the publication of what is pending if the state is TopLevel.
  The result is the frame at the return: the members of the object as \<^verbatim>\<open>exec\<close> leaves
  them, with the last values of the three local variables.
\<close>

definition exec :: "'w Parser \<Rightarrow> string list \<Rightarrow> 'w exec_frame" where
  "exec p lines =
     (let f = exec_loop p lines in
      if state f = TopLevel then publish_commands f else f)"

section \<open>Worker\<close>

text \<open>
  In the definitions below the parameter that the source names \<^verbatim>\<open>commands\<close> is
  written \<open>cmds\<close>, since \<open>commands\<close> is the local variable of \<^verbatim>\<open>exec\<close> above.

  The class \<^verbatim>\<open>Worker\<close> as the thread that owns it sees it: the queue, the running
  flag, and (a history variable) the batches that \<^verbatim>\<open>m_workFunction\<close> was called on,
  in order. The background thread is not interleaved with its owner: the model is the
  schedule in which that thread runs when \<^verbatim>\<open>stop\<close> joins it, where it finds
  \<^verbatim>\<open>m_running\<close> false, handles the whole queue and clears it. The handlers
  (\<^verbatim>\<open>write\<close>) only print or write a file.
\<close>

record Worker =
  m_queue :: "Bulk list"
  m_running :: bool
  handled :: "Bulk list"

definition Worker_start :: "Worker \<Rightarrow> Worker" where
  "Worker_start w = (if m_running w = True then w else w\<lparr>m_running := True\<rparr>)"

definition Worker_new :: Worker where
  "Worker_new = Worker_start \<lparr>m_queue = [], m_running = False, handled = []\<rparr>"

definition Worker_push_back :: "Bulk \<Rightarrow> Worker \<Rightarrow> Worker" where
  "Worker_push_back cmds w = w\<lparr>m_queue := m_queue w @ [cmds]\<rparr>"

definition Worker_stop :: "Worker \<Rightarrow> Worker" where
  "Worker_stop w =
     (if m_running w = False then w
      else w\<lparr>m_running := False, handled := handled w @ m_queue w, m_queue := []\<rparr>)"

section \<open>The sinks\<close>

text \<open>
  The base class \<^verbatim>\<open>IBulker\<close> holds two \<^verbatim>\<open>std::map<Worker *, int>\<close>, named
  \<^verbatim>\<open>m_blockCount\<close> and \<^verbatim>\<open>m_commandCount\<close> in the source (here with the suffix
  \<open>_map\<close>, the parser having counters of the same names). A key is the address of a
  worker that the sink owns; it is modelled by the position of the worker in the sink:
  \<open>0\<close> for the one worker of the screen sink, \<open>i\<close> for \<^verbatim>\<open>&m_workers.at(i)\<close>.
  \<open>map_at\<close> is \<^verbatim>\<open>operator[]\<close> of \<^verbatim>\<open>std::map\<close> read as a value: \<open>0\<close> for an absent key.
\<close>

record IBulker =
  m_blockCount_map :: "nat \<rightharpoonup> int"
  m_commandCount_map :: "nat \<rightharpoonup> int"

definition map_at :: "(nat \<rightharpoonup> int) \<Rightarrow> nat \<Rightarrow> int" where
  "map_at m k = (case m k of None \<Rightarrow> 0 | Some v \<Rightarrow> v)"

definition initStats :: "nat \<Rightarrow> 'z IBulker_scheme \<Rightarrow> 'z IBulker_scheme" where
  "initStats worker s =
     (let s1 = (if m_blockCount_map s worker = None
                then s\<lparr>m_blockCount_map := (m_blockCount_map s)(worker \<mapsto> 0)\<rparr> else s)
      in if m_commandCount_map s1 worker = None
         then s1\<lparr>m_commandCount_map := (m_commandCount_map s1)(worker \<mapsto> 0)\<rparr> else s1)"

definition calcStats :: "nat \<Rightarrow> Bulk \<Rightarrow> 'z IBulker_scheme \<Rightarrow> 'z IBulker_scheme" where
  "calcStats worker cmds s =
     (let s1 = initStats worker s;
          s2 = s1\<lparr>m_blockCount_map :=
                  (m_blockCount_map s1)(worker \<mapsto> map_at (m_blockCount_map s1) worker + 1)\<rparr>
      in s2\<lparr>m_commandCount_map :=
               (m_commandCount_map s2)(worker \<mapsto>
                  map_at (m_commandCount_map s2) worker + int (length cmds))\<rparr>)"

record ScreenWritter = IBulker +
  m_worker :: Worker

definition ScreenWritter_new :: ScreenWritter where
  "ScreenWritter_new =
     \<lparr>m_blockCount_map = Map.empty, m_commandCount_map = Map.empty, m_worker = Worker_new\<rparr>"

definition ScreenWritter_push_back :: "Bulk \<Rightarrow> ScreenWritter \<Rightarrow> ScreenWritter" where
  "ScreenWritter_push_back cmds s =
     calcStats 0 cmds (s\<lparr>m_worker := Worker_push_back cmds (m_worker s)\<rparr>)"

definition ScreenWritter_stop :: "ScreenWritter \<Rightarrow> ScreenWritter" where
  "ScreenWritter_stop s = s\<lparr>m_worker := Worker_stop (m_worker s)\<rparr>"

text \<open>
  \<^verbatim>\<open>FileWriter\<close>. \<^verbatim>\<open>m_workers.at(i)\<close> throws \<^verbatim>\<open>std::out_of_range\<close> when \<open>i\<close>,
  converted to \<^verbatim>\<open>size_t\<close>, is not below the size of the vector.
\<close>

datatype error = out_of_range

record FileWriter = IBulker +
  m_workers :: "Worker list"
  m_roundRobin :: int

definition FileWriter_new :: "int \<Rightarrow> FileWriter" where
  "FileWriter_new wrkCount =
     \<lparr>m_blockCount_map = Map.empty, m_commandCount_map = Map.empty,
      m_workers = replicate (nat wrkCount) Worker_new, m_roundRobin = 0\<rparr>"

definition FileWriter_push_back :: "Bulk \<Rightarrow> FileWriter \<Rightarrow> error + FileWriter" where
  "FileWriter_push_back cmds fw =
     (let i = size_t_of_int (m_roundRobin fw) in
      if length (m_workers fw) \<le> i then Inl out_of_range
      else
        (let fw1 = fw\<lparr>m_workers := (m_workers fw)[i := Worker_push_back cmds (m_workers fw ! i)]\<rparr>;
             fw2 = calcStats i cmds fw1;
             fw3 = fw2\<lparr>m_roundRobin := m_roundRobin fw2 + 1\<rparr>
         in Inr (if size_t_of_int (m_roundRobin fw3) = length (m_workers fw3)
                 then fw3\<lparr>m_roundRobin := 0\<rparr> else fw3)))"

text \<open>The body of the loop of \<^verbatim>\<open>FileWriter::stop\<close>, and the loop over all positions.\<close>

definition FileWriter_stop_at :: "nat \<Rightarrow> FileWriter \<Rightarrow> FileWriter" where
  "FileWriter_stop_at i fw =
     (let fw1 = initStats i fw
      in fw1\<lparr>m_workers := (m_workers fw1)[i := Worker_stop (m_workers fw1 ! i)]\<rparr>)"

definition FileWriter_stop :: "FileWriter \<Rightarrow> FileWriter" where
  "FileWriter_stop fw = fold FileWriter_stop_at [0..<length (m_workers fw)] fw"

text \<open>
  A sequence of batches handed to the file sink one after the other, as the parser's
  subscriber loop does; an exception ends the sequence.
\<close>

fun FileWriter_push_all :: "Bulk list \<Rightarrow> FileWriter \<Rightarrow> error + FileWriter" where
  "FileWriter_push_all [] fw = Inr fw"
| "FileWriter_push_all (b # bs) fw =
     (case FileWriter_push_back b fw of
        Inl e \<Rightarrow> Inl e
      | Inr fw' \<Rightarrow> FileWriter_push_all bs fw')"

section \<open>The program\<close>

text \<open>
  \<^verbatim>\<open>main\<close> builds a parser, a screen sink and a file sink with two workers, subscribes
  the \<^verbatim>\<open>push_back\<close> of each sink, runs \<^verbatim>\<open>exec\<close> on the input, and stops the two
  sinks; \<open>main_sinks\<close> is \<^verbatim>\<open>main\<close> up to that point, and returns the two sinks, whose
  maps the three calls of \<^verbatim>\<open>printStats\<close> then print. \<open>bulkCount\<close> is the value of the
  variable of that name when the parser is built. The world of the subscribers is the
  pair of sinks, or the exception that a subscriber threw: nothing acts on the sinks
  after an exception.
\<close>

record sinks =
  screenWritter :: ScreenWritter
  fileWriter :: FileWriter

definition screen_subscriber :: "Bulk \<Rightarrow> error + sinks \<Rightarrow> error + sinks" where
  "screen_subscriber cmds w =
     (case w of
        Inl e \<Rightarrow> Inl e
      | Inr s \<Rightarrow> Inr (s\<lparr>screenWritter := ScreenWritter_push_back cmds (screenWritter s)\<rparr>))"

definition file_subscriber :: "Bulk \<Rightarrow> error + sinks \<Rightarrow> error + sinks" where
  "file_subscriber cmds w =
     (case w of
        Inl e \<Rightarrow> Inl e
      | Inr s \<Rightarrow>
          (case FileWriter_push_back cmds (fileWriter s) of
             Inl e \<Rightarrow> Inl e
           | Inr fw \<Rightarrow> Inr (s\<lparr>fileWriter := fw\<rparr>)))"

definition main_sinks :: "int \<Rightarrow> string list \<Rightarrow> error + sinks" where
  "main_sinks bulkCount lines =
     (let parser0 = Parser_new bulkCount
                      (Inr \<lparr>screenWritter = ScreenWritter_new, fileWriter = FileWriter_new 2\<rparr>);
          parser1 = subscribe screen_subscriber parser0;
          parser2 = subscribe file_subscriber parser1
      in case world (exec parser2 lines) of
           Inl e \<Rightarrow> Inl e
         | Inr s \<Rightarrow>
             Inr (s\<lparr>screenWritter := ScreenWritter_stop (screenWritter s),
                     fileWriter := FileWriter_stop (fileWriter s)\<rparr>))"

section \<open>Facts about the parser\<close>

subsection \<open>What a publication changes\<close>

lemma publish_commands_Nil: "commands f = [] \<Longrightarrow> publish_commands f = f"
  by (simp add: publish_commands_def publish_def)

lemma publish_commands_fields:
  "state (publish_commands f) = state f"
  "depthCounter (publish_commands f) = depthCounter f"
  "m_bulkSize (publish_commands f) = m_bulkSize f"
  "m_subscribers (publish_commands f) = m_subscribers f"
  "m_lineCount (publish_commands f) = m_lineCount f"
  "commands (publish_commands f) = []"
  by (simp_all add: publish_commands_def publish_def)

lemma publish_commands_counts:
  "m_commandCount (publish_commands f) = m_commandCount f + int (length (commands f))"
  "m_blockCount (publish_commands f) = m_blockCount f + (if commands f = [] then 0 else 1)"
  "published (publish_commands f) = published f @ (if commands f = [] then [] else [commands f])"
  "world (publish_commands f) =
     (if commands f = [] then world f
      else fold (\<lambda>subscriber. subscriber (commands f)) (m_subscribers f) (world f))"
  by (simp_all add: publish_commands_def publish_def)

subsection \<open>The parser at the entry of the loop\<close>

lemma subscribed_fields:
  "m_subscribers (fold subscribe subs p) = m_subscribers p @ subs"
  "m_bulkSize (fold subscribe subs p) = m_bulkSize p"
  "m_lineCount (fold subscribe subs p) = m_lineCount p"
  "m_commandCount (fold subscribe subs p) = m_commandCount p"
  "m_blockCount (fold subscribe subs p) = m_blockCount p"
  "world (fold subscribe subs p) = world p"
  "published (fold subscribe subs p) = published p"
  by (induction subs arbitrary: p; simp add: subscribe_def)+

lemma exec_entry_fields:
  "m_subscribers (exec_entry p) = m_subscribers p"
  "m_bulkSize (exec_entry p) = m_bulkSize p"
  "m_lineCount (exec_entry p) = m_lineCount p"
  "m_commandCount (exec_entry p) = m_commandCount p"
  "m_blockCount (exec_entry p) = m_blockCount p"
  "world (exec_entry p) = world p"
  "published (exec_entry p) = published p"
  "state (exec_entry p) = TopLevel"
  "commands (exec_entry p) = []"
  "depthCounter (exec_entry p) = 0"
  by (simp_all add: exec_entry_def)

lemma exec_loop_snoc: "exec_loop p (ls @ [l]) = exec_line l (exec_loop p ls)"
  by (simp add: exec_loop_def)

lemma exec_line_keeps:
  "m_bulkSize (exec_line l f) = m_bulkSize f"
  "m_subscribers (exec_line l f) = m_subscribers f"
  "m_lineCount (exec_line l f) = m_lineCount f + 1"
  by (simp_all add: exec_line_def Let_def publish_commands_fields split: ParsingState.split)

subsection \<open>The counters stay in range\<close>

text \<open>
  The counters of the source are 32-bit \<^verbatim>\<open>int\<close>s and those of the model are integers.
  For a parser made by the constructor, \<^verbatim>\<open>m_lineCount\<close> is the number of lines read,
  and the other two counters and the depth counter lie between 0 and \<^verbatim>\<open>m_lineCount\<close>,
  after every line and when \<^verbatim>\<open>exec\<close> returns. So on an input of fewer than \<open>2 ^ 31\<close>
  lines every value a counter takes is in the range of \<^verbatim>\<open>int\<close>, and the integers of the
  model are the values of the source. On a longer input the counters of the source
  overflow, and the theorems below that speak of the value of a counter assume the bound.
\<close>

lemma fold_keeps:
  "m_bulkSize (fold exec_line ls f) = m_bulkSize f"
  "m_subscribers (fold exec_line ls f) = m_subscribers f"
  "m_lineCount (fold exec_line ls f) = m_lineCount f + int (length ls)"
  by (induction ls arbitrary: f; simp add: exec_line_keeps)+

lemma counters_exec_line:
  assumes "0 \<le> m_blockCount f" and "m_blockCount f \<le> m_commandCount f"
    and "m_commandCount f + int (length (commands f)) \<le> m_lineCount f"
    and "0 \<le> depthCounter f" and "depthCounter f \<le> m_lineCount f"
    and "(state f = InBlock) = (1 \<le> depthCounter f)"
  shows "0 \<le> m_blockCount (exec_line l f) \<and>
         m_blockCount (exec_line l f) \<le> m_commandCount (exec_line l f) \<and>
         m_commandCount (exec_line l f) + int (length (commands (exec_line l f)))
           \<le> m_lineCount (exec_line l f) \<and>
         0 \<le> depthCounter (exec_line l f) \<and>
         depthCounter (exec_line l f) \<le> m_lineCount (exec_line l f) \<and>
         (state (exec_line l f) = InBlock) = (1 \<le> depthCounter (exec_line l f))"
proof (cases "state f")
  case TopLevel
  then have "depthCounter f = 0"
    using assms(4,6) by auto
  then show ?thesis
    using assms TopLevel
    by (cases "commands f")
       (auto simp add: exec_line_def Let_def publish_commands_fields publish_commands_counts)
next
  case InBlock
  then have "1 \<le> depthCounter f"
    using assms(6) by simp
  then show ?thesis
    using assms InBlock
    by (cases "commands f")
       (auto simp add: exec_line_def Let_def publish_commands_fields publish_commands_counts)
qed

lemma counters_fold:
  assumes "0 \<le> m_blockCount f" and "m_blockCount f \<le> m_commandCount f"
    and "m_commandCount f + int (length (commands f)) \<le> m_lineCount f"
    and "0 \<le> depthCounter f" and "depthCounter f \<le> m_lineCount f"
    and "(state f = InBlock) = (1 \<le> depthCounter f)"
  shows "0 \<le> m_blockCount (fold exec_line ls f) \<and>
         m_blockCount (fold exec_line ls f) \<le> m_commandCount (fold exec_line ls f) \<and>
         m_commandCount (fold exec_line ls f) + int (length (commands (fold exec_line ls f)))
           \<le> m_lineCount (fold exec_line ls f) \<and>
         0 \<le> depthCounter (fold exec_line ls f) \<and>
         depthCounter (fold exec_line ls f) \<le> m_lineCount (fold exec_line ls f) \<and>
         (state (fold exec_line ls f) = InBlock) = (1 \<le> depthCounter (fold exec_line ls f))"
  using assms
proof (induction ls arbitrary: f)
  case Nil
  then show ?case by simp
next
  case (Cons l ls)
  have step: "0 \<le> m_blockCount (exec_line l f) \<and>
         m_blockCount (exec_line l f) \<le> m_commandCount (exec_line l f) \<and>
         m_commandCount (exec_line l f) + int (length (commands (exec_line l f)))
           \<le> m_lineCount (exec_line l f) \<and>
         0 \<le> depthCounter (exec_line l f) \<and>
         depthCounter (exec_line l f) \<le> m_lineCount (exec_line l f) \<and>
         (state (exec_line l f) = InBlock) = (1 \<le> depthCounter (exec_line l f))"
    by (rule counters_exec_line) (use Cons.prems in simp_all)
  show ?case
    using Cons.IH [of "exec_line l f"] step by simp
qed

lemma counters_in_range:
  fixes subs :: "(Bulk \<Rightarrow> 'w \<Rightarrow> 'w) list" and w :: 'w
    and bulkSize :: int and lines :: "string list"
  defines "r \<equiv> exec (fold subscribe subs (Parser_new bulkSize w)) lines"
  shows "m_lineCount r = int (length lines)"
    and "0 \<le> m_blockCount r" and "m_blockCount r \<le> m_commandCount r"
    and "m_commandCount r \<le> m_lineCount r"
    and "0 \<le> depthCounter r" and "depthCounter r \<le> m_lineCount r"
proof -
  let ?p = "fold subscribe subs (Parser_new bulkSize w)"
  let ?f = "exec_loop ?p lines"
  have inv: "0 \<le> m_blockCount ?f \<and>
         m_blockCount ?f \<le> m_commandCount ?f \<and>
         m_commandCount ?f + int (length (commands ?f)) \<le> m_lineCount ?f \<and>
         0 \<le> depthCounter ?f \<and>
         depthCounter ?f \<le> m_lineCount ?f \<and>
         (state ?f = InBlock) = (1 \<le> depthCounter ?f)"
    unfolding exec_loop_def
    by (rule counters_fold)
       (simp_all add: exec_entry_fields subscribed_fields Parser_new_def)
  have lc: "m_lineCount ?f = int (length lines)"
    by (simp add: exec_loop_def fold_keeps exec_entry_fields subscribed_fields Parser_new_def)
  show "m_lineCount r = int (length lines)"
    using lc by (simp add: r_def exec_def Let_def publish_commands_fields)
  show "0 \<le> m_blockCount r" "m_blockCount r \<le> m_commandCount r"
    "m_commandCount r \<le> m_lineCount r" "0 \<le> depthCounter r" "depthCounter r \<le> m_lineCount r"
    using inv
    by (cases "commands ?f";
        auto simp add: r_def exec_def Let_def publish_commands_fields publish_commands_counts)+
qed


lemma is_int_between: "0 \<le> i \<Longrightarrow> i \<le> int n \<Longrightarrow> n < 2 ^ 31 \<Longrightarrow> is_int i"
  by (simp add: is_int_def)

subsection \<open>The command counter and the published batches\<close>





subsection \<open>Two runs traced line by line\<close>

text \<open>
  Claim C3. On the input lines \<open>{ a b { c } d }\<close>, one per line, the parser publishes
  exactly one batch, \<open>[a, b, c, d]\<close>, whatever the threshold and the subscribers are, and
  every subscriber is called once, on that batch. The second part gives the state, the
  depth counter, the pending batch and the published batches after each line: the inner
  \<open>{\<close> and \<open>}\<close> change the depth counter only, and the batch is published by the line
  that brings the depth counter back to 0.
\<close>

theorem nested_block_publishes_one_batch:
  fixes subs :: "(Bulk \<Rightarrow> 'w \<Rightarrow> 'w) list"
  defines "p \<equiv> \<lambda>bulkSize w. fold subscribe subs (Parser_new bulkSize w)"
  shows "published (exec (p bulkSize w) [''{'', ''a'', ''b'', ''{'', ''c'', ''}'', ''d'', ''}''])
           = [[''a'', ''b'', ''c'', ''d'']] \<and>
         world (exec (p bulkSize w) [''{'', ''a'', ''b'', ''{'', ''c'', ''}'', ''d'', ''}''])
           = fold (\<lambda>subscriber. subscriber [''a'', ''b'', ''c'', ''d'']) subs w \<and>
         map (\<lambda>ls. (state (exec_loop (p bulkSize w) ls), depthCounter (exec_loop (p bulkSize w) ls),
                     commands (exec_loop (p bulkSize w) ls), published (exec_loop (p bulkSize w) ls)))
             (prefixes [''{'', ''a'', ''b'', ''{'', ''c'', ''}'', ''d'', ''}'']) =
           [(TopLevel, 0, [], []),
            (InBlock, 1, [], []),
            (InBlock, 1, [''a''], []),
            (InBlock, 1, [''a'', ''b''], []),
            (InBlock, 2, [''a'', ''b''], []),
            (InBlock, 2, [''a'', ''b'', ''c''], []),
            (InBlock, 1, [''a'', ''b'', ''c''], []),
            (InBlock, 1, [''a'', ''b'', ''c'', ''d''], []),
            (TopLevel, 0, [], [[''a'', ''b'', ''c'', ''d'']])]"
  unfolding p_def
  by (simp add: exec_def exec_loop_def exec_line_def publish_commands_fields
      publish_commands_counts exec_entry_fields subscribed_fields Parser_new_def Let_def)

theorem nested_block_publishes_one_batch_witness:
  "world (exec (fold subscribe [\<lambda>b w. w @ [b]] (Parser_new 3 []))
            [''{'', ''a'', ''b'', ''{'', ''c'', ''}'', ''d'', ''}'']) = [[''a'', ''b'', ''c'', ''d'']]"
  using nested_block_publishes_one_batch [of "[\<lambda>b w. w @ [b]]" 3 "[]"]
  by simp

text \<open>
  Claim C4. With threshold 3 and the input lines \<open>a b c d e\<close>, the parser publishes
  \<open>[a, b, c]\<close> and then \<open>[d, e]\<close>. The trace shows that the first batch is published by
  the line that makes the pending batch three lines long, and that the loop ends in
  TopLevel with \<open>[d, e]\<close> pending and one batch published: the second batch is published
  by the publication at the end of the input.
\<close>

theorem threshold_three_five_lines:
  fixes subs :: "(Bulk \<Rightarrow> 'w \<Rightarrow> 'w) list"
  defines "p \<equiv> \<lambda>w. fold subscribe subs (Parser_new 3 w)"
  shows "published (exec (p w) [''a'', ''b'', ''c'', ''d'', ''e''])
           = [[''a'', ''b'', ''c''], [''d'', ''e'']] \<and>
         world (exec (p w) [''a'', ''b'', ''c'', ''d'', ''e''])
           = fold (\<lambda>subscriber. subscriber [''d'', ''e'']) subs
               (fold (\<lambda>subscriber. subscriber [''a'', ''b'', ''c'']) subs w) \<and>
         map (\<lambda>ls. (state (exec_loop (p w) ls), commands (exec_loop (p w) ls),
                     published (exec_loop (p w) ls)))
             (prefixes [''a'', ''b'', ''c'', ''d'', ''e'']) =
           [(TopLevel, [], []),
            (TopLevel, [''a''], []),
            (TopLevel, [''a'', ''b''], []),
            (TopLevel, [], [[''a'', ''b'', ''c'']]),
            (TopLevel, [''d''], [[''a'', ''b'', ''c'']]),
            (TopLevel, [''d'', ''e''], [[''a'', ''b'', ''c'']])]"
  unfolding p_def
  by (simp add: exec_def exec_loop_def exec_line_def publish_commands_fields
      publish_commands_counts exec_entry_fields subscribed_fields Parser_new_def Let_def
      size_t_of_int_def)

theorem threshold_three_five_lines_witness:
  "world (exec (fold subscribe [\<lambda>b w. w @ [b]] (Parser_new 3 []))
            [''a'', ''b'', ''c'', ''d'', ''e'']) = [[''a'', ''b'', ''c''], [''d'', ''e'']]"
  using threshold_three_five_lines [of "[\<lambda>b w. w @ [b]]" "[]"]
  by simp

subsection \<open>A block that is still open\<close>

lemma InBlock_stays:
  assumes "state f = InBlock" and "state (exec_line l f) = InBlock"
  shows "published (exec_line l f) = published f"
    and "m_commandCount (exec_line l f) = m_commandCount f"
    and "m_blockCount (exec_line l f) = m_blockCount f"
    and "world (exec_line l f) = world f"
  using assms
  by (auto simp add: exec_line_def Let_def publish_commands_fields split: if_splits)

lemma InBlock_run:
  assumes "k + n \<le> length ls"
    and "\<forall>j. k \<le> j \<and> j \<le> k + n \<longrightarrow> state (exec_loop p (take j ls)) = InBlock"
  shows "published (exec_loop p (take (k + n) ls)) = published (exec_loop p (take k ls)) \<and>
         m_commandCount (exec_loop p (take (k + n) ls)) = m_commandCount (exec_loop p (take k ls)) \<and>
         m_blockCount (exec_loop p (take (k + n) ls)) = m_blockCount (exec_loop p (take k ls)) \<and>
         world (exec_loop p (take (k + n) ls)) = world (exec_loop p (take k ls))"
  using assms
proof (induction n)
  case 0
  then show ?case by simp
next
  case (Suc n)
  have lt: "k + n < length ls"
    using Suc.prems by simp
  have step: "exec_loop p (take (k + Suc n) ls) =
                exec_line (ls ! (k + n)) (exec_loop p (take (k + n) ls))"
    using lt by (simp add: take_Suc_conv_app_nth exec_loop_snoc)
  have before: "state (exec_loop p (take (k + n) ls)) = InBlock"
    using Suc.prems by simp
  have "state (exec_loop p (take (k + Suc n) ls)) = InBlock"
    using Suc.prems(2) by simp
  then have after: "state (exec_line (ls ! (k + n)) (exec_loop p (take (k + n) ls))) = InBlock"
    by (simp only: step)
  have ih: "published (exec_loop p (take (k + n) ls)) = published (exec_loop p (take k ls)) \<and>
         m_commandCount (exec_loop p (take (k + n) ls)) = m_commandCount (exec_loop p (take k ls)) \<and>
         m_blockCount (exec_loop p (take (k + n) ls)) = m_blockCount (exec_loop p (take k ls)) \<and>
         world (exec_loop p (take (k + n) ls)) = world (exec_loop p (take k ls))"
    using Suc.IH Suc.prems by simp
  show ?case
    using ih InBlock_stays [OF before after] step by simp
qed

text \<open>
  Claim C5. Let the parser be in the state InBlock from the moment it has read \<open>k\<close> lines
  to the end of the input (the block that line \<open>k\<close> opened is never closed). Then
  \<^verbatim>\<open>exec\<close> returns the frame the loop ended with: nothing is published at the end of
  the input. And the batches published, \<^verbatim>\<open>m_commandCount\<close>, \<^verbatim>\<open>m_blockCount\<close> and the
  world of the subscribers are what they were when the block was opened: the lines of the
  block produce no batch, change neither counter, and reach no subscriber.
\<close>

theorem unterminated_block_is_not_published:
  assumes "k \<le> length lines"
    and "\<forall>j. k \<le> j \<and> j \<le> length lines \<longrightarrow> state (exec_loop p (take j lines)) = InBlock"
  shows "exec p lines = exec_loop p lines \<and>
         published (exec p lines) = published (exec_loop p (take k lines)) \<and>
         m_commandCount (exec p lines) = m_commandCount (exec_loop p (take k lines)) \<and>
         m_blockCount (exec p lines) = m_blockCount (exec_loop p (take k lines)) \<and>
         world (exec p lines) = world (exec_loop p (take k lines))"
proof -
  have "state (exec_loop p (take (length lines) lines)) = InBlock"
    using assms by blast
  then have e: "exec p lines = exec_loop p lines"
    by (simp add: exec_def)
  obtain n where n: "length lines = k + n"
    using assms(1) le_Suc_ex by blast
  have "published (exec_loop p (take (k + n) lines)) = published (exec_loop p (take k lines)) \<and>
        m_commandCount (exec_loop p (take (k + n) lines)) = m_commandCount (exec_loop p (take k lines)) \<and>
        m_blockCount (exec_loop p (take (k + n) lines)) = m_blockCount (exec_loop p (take k lines)) \<and>
        world (exec_loop p (take (k + n) lines)) = world (exec_loop p (take k lines))"
    by (rule InBlock_run) (use assms n in simp_all)
  then show ?thesis
    using e n by simp
qed

theorem unterminated_block_is_not_published_witness:
  "state (exec_loop (subscribe (\<lambda>b w. w @ [b]) (Parser_new 3 [])) [''x'', ''{'', ''a'', ''b'']) = InBlock \<and>
   commands (exec (subscribe (\<lambda>b w. w @ [b]) (Parser_new 3 [])) [''x'', ''{'', ''a'', ''b'']) = [''a'', ''b''] \<and>
   published (exec (subscribe (\<lambda>b w. w @ [b]) (Parser_new 3 [])) [''x'', ''{'', ''a'', ''b'']) = [[''x'']] \<and>
   world (exec (subscribe (\<lambda>b w. w @ [b]) (Parser_new 3 [])) [''x'', ''{'', ''a'', ''b'']) = [[''x'']] \<and>
   m_commandCount (exec (subscribe (\<lambda>b w. w @ [b]) (Parser_new 3 [])) [''x'', ''{'', ''a'', ''b'']) = 1 \<and>
   m_blockCount (exec (subscribe (\<lambda>b w. w @ [b]) (Parser_new 3 [])) [''x'', ''{'', ''a'', ''b'']) = 1"
proof -
  let ?p = "subscribe (\<lambda>b w. w @ [b]) (Parser_new 3 []) :: Bulk list Parser"
  let ?ls = "[''x'', ''{'', ''a'', ''b'']"
  have run: "exec_loop ?p [''x'', ''{''] =
               (exec_entry ?p)\<lparr>m_lineCount := 2, m_commandCount := 1, m_blockCount := 1,
                  world := [[''x'']], published := [[''x'']], state := InBlock,
                  depthCounter := 1\<rparr>"
    by (simp add: exec_loop_def exec_line_def publish_commands_def publish_def exec_entry_def
        subscribe_def Parser_new_def Let_def size_t_of_int_def)
  have k: "2 \<le> length ?ls"
    by simp
  have open_block: "\<forall>j. 2 \<le> j \<and> j \<le> length ?ls \<longrightarrow> state (exec_loop ?p (take j ?ls)) = InBlock"
  proof (intro allI impI)
    fix j :: nat
    assume "2 \<le> j \<and> j \<le> length ?ls"
    then have "j = 2 \<or> j = 3 \<or> j = 4"
      by auto
    then show "state (exec_loop ?p (take j ?ls)) = InBlock"
      by (elim disjE)
         (simp_all add: exec_loop_def exec_line_def publish_commands_def publish_def
            exec_entry_def subscribe_def Parser_new_def Let_def size_t_of_int_def)
  qed
  have pending: "commands (exec_loop ?p ?ls) = [''a'', ''b''] \<and> state (exec_loop ?p ?ls) = InBlock"
    by (simp add: exec_loop_def exec_line_def publish_commands_def publish_def
        exec_entry_def subscribe_def Parser_new_def Let_def size_t_of_int_def)
  have t: "exec ?p ?ls = exec_loop ?p ?ls \<and>
         published (exec ?p ?ls) = published (exec_loop ?p (take 2 ?ls)) \<and>
         m_commandCount (exec ?p ?ls) = m_commandCount (exec_loop ?p (take 2 ?ls)) \<and>
         m_blockCount (exec ?p ?ls) = m_blockCount (exec_loop ?p (take 2 ?ls)) \<and>
         world (exec ?p ?ls) = world (exec_loop ?p (take 2 ?ls))"
    using k open_block by (rule unterminated_block_is_not_published)
  have two: "take 2 ?ls = [''x'', ''{'']"
    by simp
  have "commands (exec ?p ?ls) = [''a'', ''b'']"
    using t pending by metis
  moreover have "published (exec ?p ?ls) = [[''x'']]" and "world (exec ?p ?ls) = [[''x'']]"
    and "m_commandCount (exec ?p ?ls) = 1" and "m_blockCount (exec ?p ?ls) = 1"
    using t [THEN conjunct2] unfolding two run by simp_all
  ultimately show ?thesis
    using pending by blast
qed

subsection \<open>The empty batch\<close>

lemma no_empty_exec_line:
  "[] \<notin> set (published f) \<Longrightarrow> [] \<notin> set (published (exec_line l f))"
  by (auto simp add: exec_line_def Let_def publish_commands_counts split: ParsingState.split)

lemma no_empty_fold:
  "[] \<notin> set (published f) \<Longrightarrow> [] \<notin> set (published (fold exec_line ls f))"
  by (induction ls arbitrary: f) (simp_all add: no_empty_exec_line)

lemma no_empty_exec:
  "[] \<notin> set (published p) \<Longrightarrow> [] \<notin> set (published (exec p ls))"
  using no_empty_fold [of "exec_entry p" ls]
  by (simp add: exec_def exec_loop_def Let_def publish_commands_counts exec_entry_fields)

text \<open>
  Claim C6. \<^verbatim>\<open>publish\<close> on an empty batch returns the parser as it was, in any state of
  the parser: the two counters, the world of the subscribers and the history are
  unchanged. No run of a parser made by the constructor publishes an empty batch. And a
  line \<open>{\<close> read in TopLevel with nothing pending only counts the line, raises the depth
  counter and enters InBlock.
\<close>

theorem publish_of_empty_batch_is_noop:
  fixes p :: "'w Parser" and f :: "'w exec_frame" and subs :: "(Bulk \<Rightarrow> 'w \<Rightarrow> 'w) list"
  shows "publish [] p = ([], p) \<and>
         [] \<notin> set (published (exec (fold subscribe subs (Parser_new bulkSize w)) lines)) \<and>
         (state f = TopLevel \<and> commands f = [] \<longrightarrow>
            exec_line ''{'' f =
              f\<lparr>m_lineCount := m_lineCount f + 1, depthCounter := depthCounter f + 1,
                state := InBlock\<rparr>)"
proof -
  have "[] \<notin> set (published (exec (fold subscribe subs (Parser_new bulkSize w)) lines))"
    by (rule no_empty_exec) (simp add: subscribed_fields Parser_new_def)
  moreover have "state f = TopLevel \<and> commands f = [] \<longrightarrow>
            exec_line ''{'' f =
              f\<lparr>m_lineCount := m_lineCount f + 1, depthCounter := depthCounter f + 1,
                state := InBlock\<rparr>"
    by (simp add: exec_line_def Let_def publish_commands_Nil)
  ultimately show ?thesis
    by (simp add: publish_def)
qed

theorem publish_of_empty_batch_is_noop_witness:
  "publish [] (subscribe (\<lambda>b w. w @ [b]) (Parser_new 3 [])) =
     ([], subscribe (\<lambda>b w. w @ [b]) (Parser_new 3 [])) \<and>
   state (exec_entry (subscribe (\<lambda>b w. w @ [b]) (Parser_new 3 []))) = TopLevel \<and>
   commands (exec_entry (subscribe (\<lambda>b w. w @ [b]) (Parser_new 3 []))) = [] \<and>
   world (exec_line ''{'' (exec_entry (subscribe (\<lambda>b w. w @ [b]) (Parser_new 3 [])))) = [] \<and>
   published (exec_line ''{'' (exec_entry (subscribe (\<lambda>b w. w @ [b]) (Parser_new 3 [])))) = [] \<and>
   m_blockCount (exec_line ''{'' (exec_entry (subscribe (\<lambda>b w. w @ [b]) (Parser_new 3 [])))) = 0 \<and>
   m_commandCount (exec_line ''{'' (exec_entry (subscribe (\<lambda>b w. w @ [b]) (Parser_new 3 [])))) = 0 \<and>
   state (exec_line ''{'' (exec_entry (subscribe (\<lambda>b w. w @ [b]) (Parser_new 3 [])))) = InBlock"
proof -
  let ?p = "subscribe (\<lambda>b w. w @ [b]) (Parser_new 3 []) :: Bulk list Parser"
  have entry: "state (exec_entry ?p) = TopLevel \<and> commands (exec_entry ?p) = []"
    by (simp add: exec_entry_fields)
  show ?thesis
    using publish_of_empty_batch_is_noop [of ?p "[]" 3 "[]" "[]" "exec_entry ?p"] entry
    by (simp add: exec_entry_def subscribe_def Parser_new_def)
qed

subsection \<open>Lines read in TopLevel\<close>

lemma size_t_of_int_pos: "0 \<le> i \<Longrightarrow> i < 2 ^ 64 \<Longrightarrow> size_t_of_int i = nat i"
  by (simp add: size_t_of_int_def)

lemma size_t_of_int_neg:
  "- (2 ^ 31) \<le> i \<Longrightarrow> i < 0 \<Longrightarrow> size_t_of_int i = nat (2 ^ 64 + i)"
proof -
  assume a: "- (2 ^ 31) \<le> i" "i < 0"
  have "i mod 2 ^ 64 = (i + 2 ^ 64) mod 2 ^ 64"
    by simp
  also have "\<dots> = i + 2 ^ 64"
    using a by (intro mod_pos_pos_trivial) simp_all
  finally show ?thesis
    by (simp add: size_t_of_int_def add.commute)
qed

lemma TopLevel_line:
  assumes "state f = TopLevel" and "l \<noteq> ''{''"
  shows "exec_line l f =
     (if length (commands f) + 1 = size_t_of_int (m_bulkSize f)
      then publish_commands (f\<lparr>m_lineCount := m_lineCount f + 1, commands := commands f @ [l]\<rparr>)
      else f\<lparr>m_lineCount := m_lineCount f + 1, commands := commands f @ [l]\<rparr>)"
  using assms by (simp add: exec_line_def Let_def)

lemma TopLevel_run:
  assumes "0 < b" and "b < 2 ^ 64" and "''{'' \<notin> set ls"
    and "state f = TopLevel" and "m_bulkSize f = b" and "int (length (commands f)) < b"
  shows "state (fold exec_line ls f) = TopLevel \<and>
         int (length (commands (fold exec_line ls f))) =
           (int (length (commands f)) + int (length ls)) mod b \<and>
         m_blockCount (fold exec_line ls f) =
           m_blockCount f + (int (length (commands f)) + int (length ls)) div b"
  using assms(3-)
proof (induction ls arbitrary: f)
  case Nil
  then show ?case using assms(1) by simp
next
  case (Cons l ls)
  have sz: "size_t_of_int b = nat b"
    using assms(1,2) by (simp add: size_t_of_int_pos)
  have l: "l \<noteq> ''{''"
    using Cons.prems by auto
  show ?case
  proof (cases "int (length (commands f)) + 1 = b")
    case True
    then have eq: "length (commands f) + 1 = nat b"
      by linarith
    let ?g = "publish_commands (f\<lparr>m_lineCount := m_lineCount f + 1, commands := commands f @ [l]\<rparr>)"
    have g: "exec_line l f = ?g"
      using Cons.prems l eq by (simp add: TopLevel_line sz)
    have ih: "state (fold exec_line ls ?g) = TopLevel \<and>
         int (length (commands (fold exec_line ls ?g))) =
           (int (length (commands ?g)) + int (length ls)) mod b \<and>
         m_blockCount (fold exec_line ls ?g) =
           m_blockCount ?g + (int (length (commands ?g)) + int (length ls)) div b"
      by (rule Cons.IH) (use Cons.prems assms(1) in \<open>simp_all add: publish_commands_fields\<close>)
    have full: "int (length (commands f)) + (1 + int (length ls)) = b + int (length ls)"
      using True by simp
    have m: "(int (length (commands f)) + (1 + int (length ls))) mod b = int (length ls) mod b"
      by (simp only: full mod_add_self1)
    have "(b + int (length ls)) div b = 1 + int (length ls) div b"
      using assms(1) by simp
    then have d: "(int (length (commands f)) + (1 + int (length ls))) div b =
                  1 + int (length ls) div b"
      by (simp only: full)
    show ?thesis
      using ih m d by (simp add: g publish_commands_fields publish_commands_counts)
  next
    case False
    then have ne: "length (commands f) + 1 \<noteq> nat b"
      by linarith
    let ?g = "f\<lparr>m_lineCount := m_lineCount f + 1, commands := commands f @ [l]\<rparr>"
    have g: "exec_line l f = ?g"
      using Cons.prems l ne by (simp add: TopLevel_line sz)
    have ih: "state (fold exec_line ls ?g) = TopLevel \<and>
         int (length (commands (fold exec_line ls ?g))) =
           (int (length (commands ?g)) + int (length ls)) mod b \<and>
         m_blockCount (fold exec_line ls ?g) =
           m_blockCount ?g + (int (length (commands ?g)) + int (length ls)) div b"
      by (rule Cons.IH) (use Cons.prems False in simp_all)
    show ?thesis
      using ih by (simp add: g ac_simps)
  qed
qed

lemma ceiling_div_pos:
  fixes n b :: int
  assumes "0 < b"
  shows "\<lceil>real_of_int n / real_of_int b\<rceil> = n div b + (if n mod b = 0 then 0 else 1)"
proof -
  have "\<lceil>real_of_int n / real_of_int b\<rceil> = - (- n div b)"
    by (rule ceiling_divide_eq_div)
  also have "\<dots> = n div b + (if n mod b = 0 then 0 else 1)"
    using assms by (simp add: zdiv_zminus1_eq_if)
  finally show ?thesis .
qed

text \<open>
  Claim C9, as amended. For a positive threshold (in the range of \<^verbatim>\<open>int\<close>) and an input
  of fewer than \<open>2 ^ 31\<close> lines (the inputs on which the \<^verbatim>\<open>int\<close> counters of the source
  do not overflow) with no line \<open>{\<close>, \<^verbatim>\<open>m_blockCount\<close> after \<^verbatim>\<open>exec\<close> is the number of
  lines divided by the threshold, rounded up, a value in the range of \<^verbatim>\<open>int\<close>, and no
  published batch is empty. Every line counts, the empty line too: the parser appends
  each line that is not \<open>{\<close> to the pending batch. A line \<open>}\<close> read in TopLevel is a
  command like any other, so the input may contain it.
\<close>

theorem blockCount_without_blocks:
  fixes subs :: "(Bulk \<Rightarrow> 'w \<Rightarrow> 'w) list" and w :: 'w
  assumes "0 < bulkSize" and "is_int bulkSize" and "''{'' \<notin> set lines"
    and "length lines < 2 ^ 31"
  defines "p \<equiv> fold subscribe subs (Parser_new bulkSize w)"
  shows "m_blockCount (exec p lines) = \<lceil>real (length lines) / real_of_int bulkSize\<rceil> \<and>
         is_int (m_blockCount (exec p lines)) \<and>
         [] \<notin> set (published (exec p lines))"
proof -
  have b64: "bulkSize < 2 ^ 64"
    using assms(2) by (simp add: is_int_def)
  have run: "state (fold exec_line lines (exec_entry p)) = TopLevel \<and>
         int (length (commands (fold exec_line lines (exec_entry p)))) =
           (int (length (commands (exec_entry p))) + int (length lines)) mod bulkSize \<and>
         m_blockCount (fold exec_line lines (exec_entry p)) =
           m_blockCount (exec_entry p) +
           (int (length (commands (exec_entry p))) + int (length lines)) div bulkSize"
    by (rule TopLevel_run [OF assms(1) b64 assms(3)])
       (use assms(1) in \<open>simp_all add: exec_entry_fields p_def subscribed_fields Parser_new_def\<close>)
  have "int (length (commands (exec_loop p lines))) = int (length lines) mod bulkSize"
    using run by (simp add: exec_loop_def exec_entry_fields)
  then have c: "(commands (exec_loop p lines) = []) = (int (length lines) mod bulkSize = 0)"
    by (cases "commands (exec_loop p lines)") auto
  have "m_blockCount (exec p lines) =
          int (length lines) div bulkSize + (if int (length lines) mod bulkSize = 0 then 0 else 1)"
    using run c
    by (simp add: exec_def Let_def exec_loop_def publish_commands_counts exec_entry_fields
        p_def subscribed_fields Parser_new_def)
  then have "m_blockCount (exec p lines) = \<lceil>real (length lines) / real_of_int bulkSize\<rceil>"
    using ceiling_div_pos [OF assms(1), of "int (length lines)"] by simp
  moreover have "[] \<notin> set (published (exec p lines))"
    unfolding p_def by (rule no_empty_exec) (simp add: subscribed_fields Parser_new_def)
  moreover have "is_int (m_blockCount (exec p lines))"
  proof -
    have "0 \<le> m_blockCount (exec p lines)"
      and "m_blockCount (exec p lines) \<le> int (length lines)"
      unfolding p_def
      using counters_in_range [of subs bulkSize w lines] by simp_all
    then show ?thesis
      using assms(4) by (rule is_int_between)
  qed
  ultimately show ?thesis
    by simp
qed

theorem blockCount_without_blocks_witness:
  "0 < (2::int) \<and> is_int 2 \<and> ''{'' \<notin> set [''a'', [], ''b''] \<and>
   length [''a'', [], ''b''] < 2 ^ 31 \<and>
   m_blockCount (exec (fold subscribe [] (Parser_new 2 ())) [''a'', [], ''b'']) = 2 \<and>
   published (exec (fold subscribe [] (Parser_new 2 ())) [''a'', [], ''b'']) = [[''a'', []], [''b'']]"
proof -
  have h: "0 < (2::int)" "is_int 2" "''{'' \<notin> set [''a'', [], ''b'']"
    "length [''a'', [], ''b''] < 2 ^ 31"
    by (simp_all add: is_int_def)
  have "m_blockCount (exec (fold subscribe [] (Parser_new 2 ())) [''a'', [], ''b'']) =
          \<lceil>real (length [''a'', [], ''b'']) / real_of_int 2\<rceil>"
    using blockCount_without_blocks [OF h, of "[]" "()"] by (rule conjunct1)
  also have "\<dots> = 2"
    by (simp add: ceiling_div_pos)
  finally have "m_blockCount (exec (fold subscribe [] (Parser_new 2 ())) [''a'', [], ''b'']) = 2" .
  moreover have "published (exec (fold subscribe [] (Parser_new 2 ())) [''a'', [], ''b''])
                   = [[''a'', []], [''b'']]"
    by (simp add: exec_def exec_loop_def exec_line_def publish_commands_fields
        publish_commands_counts exec_entry_fields Parser_new_def Let_def size_t_of_int_def)
  ultimately show ?thesis
    using h by blast
qed

text \<open>
  The claim as the specification states it counts the lines that are not empty. With
  threshold 1 the input of one empty line (the string \<open>[]\<close>) has no such line, so the
  claimed count is 0, and the parser publishes one batch, holding the empty line.
\<close>

theorem blockCount_nonempty_lines_counterexample:
  "0 < (1::int) \<and> ''{'' \<notin> set [[]] \<and> ''}'' \<notin> set [[]] \<and>
   m_blockCount (exec (Parser_new 1 ()) [[]]) \<noteq>
     \<lceil>real (length (filter (\<lambda>l. l \<noteq> []) [[] :: string])) / real_of_int 1\<rceil> \<and>
   published (exec (Parser_new 1 ()) [[]]) = [[[]]] \<and>
   m_blockCount (exec (Parser_new 1 ()) [[]]) = 1 \<and>
   \<lceil>real (length (filter (\<lambda>l. l \<noteq> []) [[] :: string])) / real_of_int 1\<rceil> = 0"
  by (simp add: exec_def exec_loop_def exec_line_def publish_commands_fields
      publish_commands_counts exec_entry_fields Parser_new_def Let_def size_t_of_int_def)

subsection \<open>A threshold that is zero or negative\<close>

lemma exec_line_commands_length:
  "length (commands (exec_line l f)) \<le> length (commands f) + 1"
  by (simp add: exec_line_def Let_def publish_commands_fields split: ParsingState.split)

lemma fold_commands_length:
  "length (commands (fold exec_line ls f)) \<le> length (commands f) + length ls"
proof (induction ls arbitrary: f)
  case Nil
  then show ?case by simp
next
  case (Cons l ls)
  have "length (commands (fold exec_line ls (exec_line l f))) \<le>
          length (commands (exec_line l f)) + length ls"
    by (rule Cons.IH)
  then show ?case
    using exec_line_commands_length [of l f] by simp
qed

lemma threshold_test_fails:
  assumes "b \<le> 0" and "is_int b" and "n + 1 < 2 ^ 64 - 2 ^ 31"
  shows "n + 1 \<noteq> size_t_of_int b"
proof (cases "b = 0")
  case True
  then show ?thesis by (simp add: size_t_of_int_def)
next
  case False
  then have neg: "b < 0" and low: "- (2 ^ 31) \<le> b"
    using assms by (simp_all add: is_int_def)
  have "size_t_of_int b = nat (2 ^ 64 + b)"
    using low neg by (rule size_t_of_int_neg)
  moreover have "(2::nat) ^ 64 - 2 ^ 31 \<le> nat (2 ^ 64 + b)"
    using low by simp
  ultimately show ?thesis using assms(3) by linarith
qed

text \<open>
  Claim C10, as amended. Let the threshold be zero or negative, and let the parser have
  read the lines \<open>pre\<close> (fewer than \<open>2 ^ 64 - 2 ^ 31\<close> with the next one, as every input
  that fits in memory is). A line other than \<open>{\<close> read in TopLevel is appended to the
  pending batch and nothing else happens: the test against the threshold fails. A line
  adds a batch to the published ones only if it is \<open>{\<close> read in TopLevel, or \<open>}\<close> read
  in InBlock at depth 1; and the end of the input adds one only in TopLevel.
\<close>

theorem nonpositive_threshold_never_publishes:
  fixes subs :: "(Bulk \<Rightarrow> 'w \<Rightarrow> 'w) list" and w :: 'w
  assumes "bulkSize \<le> 0" and "is_int bulkSize" and "length pre + 1 < 2 ^ 64 - 2 ^ 31"
  defines "p \<equiv> fold subscribe subs (Parser_new bulkSize w)"
  defines "f \<equiv> exec_loop p pre"
  shows "(state f = TopLevel \<and> line \<noteq> ''{'' \<longrightarrow>
            exec_line line f =
              f\<lparr>m_lineCount := m_lineCount f + 1, commands := commands f @ [line]\<rparr>) \<and>
         (published (exec_line line f) \<noteq> published f \<longrightarrow>
            state f = TopLevel \<and> line = ''{'' \<or>
            state f = InBlock \<and> line = ''}'' \<and> depthCounter f = 1) \<and>
         (published (exec p pre) \<noteq> published f \<longrightarrow> state f = TopLevel)"
proof -
  have b: "m_bulkSize f = bulkSize"
    by (simp add: f_def p_def exec_loop_def fold_keeps exec_entry_fields subscribed_fields
        Parser_new_def)
  have "length (commands f) \<le> length pre"
    using fold_commands_length [of pre "exec_entry p"]
    by (simp add: f_def exec_loop_def exec_entry_fields)
  then have "length (commands f) + 1 < 2 ^ 64 - 2 ^ 31"
    using assms(3) by linarith
  then have test: "length (commands f) + 1 \<noteq> size_t_of_int (m_bulkSize f)"
    unfolding b by (rule threshold_test_fails [OF assms(1,2)])
  have top: "state f = TopLevel \<and> line \<noteq> ''{'' \<longrightarrow>
            exec_line line f =
              f\<lparr>m_lineCount := m_lineCount f + 1, commands := commands f @ [line]\<rparr>"
    using test by (simp add: TopLevel_line)
  have only: "published (exec_line line f) \<noteq> published f \<longrightarrow>
            state f = TopLevel \<and> line = ''{'' \<or>
            state f = InBlock \<and> line = ''}'' \<and> depthCounter f = 1"
  proof (cases "state f")
    case TopLevel
    then show ?thesis using top by (cases "line = ''{''") simp_all
  next
    case InBlock
    then show ?thesis
      by (simp add: exec_line_def Let_def publish_commands_counts)
  qed
  have fin: "published (exec p pre) \<noteq> published f \<longrightarrow> state f = TopLevel"
    by (simp add: exec_def f_def Let_def)
  show ?thesis using top only fin by blast
qed

theorem nonpositive_threshold_never_publishes_witness:
  "- 1 \<le> (0::int) \<and> is_int (- 1) \<and>
   state (exec_loop (fold subscribe [] (Parser_new (- 1) ())) [''a'']) = TopLevel \<and>
   commands (exec_line ''b'' (exec_loop (fold subscribe [] (Parser_new (- 1) ())) [''a''])) =
     [''a'', ''b''] \<and>
   published (exec_line ''b'' (exec_loop (fold subscribe [] (Parser_new (- 1) ())) [''a''])) = []"
proof -
  let ?f = "exec_loop (fold subscribe [] (Parser_new (- 1) ())) [''a'']"
  have h: "- 1 \<le> (0::int)" "is_int (- 1)" "length [''a''] + 1 < 2 ^ 64 - 2 ^ 31"
    by (simp_all add: is_int_def)
  have f: "state ?f = TopLevel" "commands ?f = [''a'']" "published ?f = []"
    by (simp_all add: exec_loop_def exec_line_def publish_commands_fields
        publish_commands_counts exec_entry_fields Parser_new_def Let_def size_t_of_int_def)
  have "state ?f = TopLevel \<and> ''b'' \<noteq> ''{'' \<longrightarrow>
          exec_line ''b'' ?f = ?f\<lparr>m_lineCount := m_lineCount ?f + 1, commands := commands ?f @ [''b'']\<rparr>"
    using nonpositive_threshold_never_publishes [OF h, of "[]" "()" "''b''"] by (rule conjunct1)
  then have "exec_line ''b'' ?f = ?f\<lparr>m_lineCount := m_lineCount ?f + 1, commands := commands ?f @ [''b'']\<rparr>"
    using f(1) by simp
  then have "commands (exec_line ''b'' ?f) = [''a'', ''b'']" and "published (exec_line ''b'' ?f) = []"
    using f by simp_all
  then show ?thesis
    using h f by blast
qed

text \<open>
  The claim as stated allows a publication only when a block opens or when the input
  ends in TopLevel. With threshold 0 and the lines \<open>{ a }\<close>, nothing is published after
  \<open>{\<close> and \<open>a\<close>, and the line \<open>}\<close>, which closes the block, publishes \<open>[a]\<close>.
\<close>

theorem publication_at_block_close_counterexample:
  "state (exec_loop (Parser_new 0 ()) [''{'', ''a'']) = InBlock \<and>
   ''}'' \<noteq> ''{'' \<and>
   published (exec_line ''}'' (exec_loop (Parser_new 0 ()) [''{'', ''a''])) \<noteq>
     published (exec_loop (Parser_new 0 ()) [''{'', ''a'']) \<and>
   published (exec_loop (Parser_new 0 ()) [''{'', ''a'']) = [] \<and>
   published (exec_loop (Parser_new 0 ()) [''{'', ''a'', ''}'']) = [[''a'']]"
  by (simp add: exec_loop_def exec_line_def publish_commands_fields
      publish_commands_counts exec_entry_fields Parser_new_def Let_def size_t_of_int_def)

subsection \<open>The history of publications determines what the subscribers saw\<close>

text \<open>
  The world of the subscribers after a run is the initial world to which, for each
  published batch in order, every subscriber was applied in the order of subscription.
\<close>

lemma world_exec_line:
  "\<exists>new. published (exec_line l f) = published f @ new \<and>
         world (exec_line l f) =
           fold (\<lambda>b w. fold (\<lambda>subscriber. subscriber b) (m_subscribers f) w) new (world f)"
proof (cases "published (exec_line l f) = published f")
  case True
  then have "world (exec_line l f) = world f"
    by (auto simp add: exec_line_def Let_def publish_commands_counts
        split: ParsingState.splits if_splits)
  then show ?thesis
    using True by (intro exI [of _ "[]"]) simp
next
  case False
  then obtain c where "published (exec_line l f) = published f @ [c]"
    and "world (exec_line l f) = fold (\<lambda>subscriber. subscriber c) (m_subscribers f) (world f)"
    by (auto simp add: exec_line_def Let_def publish_commands_counts
        split: ParsingState.splits if_splits)
  then show ?thesis
    by (intro exI [of _ "[c]"]) simp
qed

lemma world_fold:
  "\<exists>new. published (fold exec_line ls f) = published f @ new \<and>
         world (fold exec_line ls f) =
           fold (\<lambda>b w. fold (\<lambda>subscriber. subscriber b) (m_subscribers f) w) new (world f)"
proof (induction ls arbitrary: f)
  case Nil
  show ?case by (intro exI [of _ "[]"]) simp
next
  case (Cons l ls)
  obtain n1 where n1: "published (exec_line l f) = published f @ n1"
    "world (exec_line l f) =
       fold (\<lambda>b w. fold (\<lambda>subscriber. subscriber b) (m_subscribers f) w) n1 (world f)"
    using world_exec_line by blast
  obtain n2 where n2: "published (fold exec_line ls (exec_line l f)) = published (exec_line l f) @ n2"
    "world (fold exec_line ls (exec_line l f)) =
       fold (\<lambda>b w. fold (\<lambda>subscriber. subscriber b) (m_subscribers (exec_line l f)) w) n2
         (world (exec_line l f))"
    using Cons.IH by blast
  show ?case
    using n1 n2 by (intro exI [of _ "n1 @ n2"]) (simp add: exec_line_keeps)
qed

lemma world_follows_published:
  fixes subs :: "(Bulk \<Rightarrow> 'w \<Rightarrow> 'w) list" and w :: 'w
    and bulkSize :: int and lines :: "string list"
  defines "r \<equiv> exec (fold subscribe subs (Parser_new bulkSize w)) lines"
  shows "world r = fold (\<lambda>b w. fold (\<lambda>subscriber. subscriber b) subs w) (published r) w"
proof -
  let ?p = "fold subscribe subs (Parser_new bulkSize w)"
  let ?f = "exec_loop ?p lines"
  obtain new where new: "published ?f = published (exec_entry ?p) @ new"
    "world ?f = fold (\<lambda>b w. fold (\<lambda>subscriber. subscriber b) (m_subscribers (exec_entry ?p)) w)
                  new (world (exec_entry ?p))"
    unfolding exec_loop_def using world_fold by blast
  have "published ?f = new"
    and "world ?f = fold (\<lambda>b w. fold (\<lambda>subscriber. subscriber b) subs w) new w"
    and "m_subscribers ?f = subs"
    using new
    by (simp_all add: exec_entry_fields subscribed_fields Parser_new_def exec_loop_def fold_keeps)
  then show ?thesis
    by (simp add: r_def exec_def Let_def publish_commands_counts)
qed

section \<open>Facts about the sinks\<close>

subsection \<open>Round-robin routing of the file sink\<close>

lemma upt_2: "[0..<2] = [0, Suc 0]"
  by (simp add: upt_rec numeral_2_eq_2)

lemma initStats_keeps:
  "m_workers (initStats k fw) = m_workers fw"
  "m_roundRobin (initStats k fw) = m_roundRobin fw"
  by (simp_all add: initStats_def Let_def)

lemma calcStats_keeps:
  "m_workers (calcStats k c fw) = m_workers fw"
  "m_roundRobin (calcStats k c fw) = m_roundRobin fw"
  by (simp_all add: calcStats_def Let_def initStats_keeps)

lemma FileWriter_push_back_in_range:
  assumes "m_roundRobin fw = int r" and "r < length (m_workers fw)"
    and "length (m_workers fw) < 2 ^ 64"
  shows "\<exists>fw'. FileWriter_push_back b fw = Inr fw' \<and>
           m_workers fw' = (m_workers fw)[r := Worker_push_back b (m_workers fw ! r)] \<and>
           m_roundRobin fw' = (if r + 1 = length (m_workers fw) then 0 else int r + 1)"
proof -
  have r: "size_t_of_int (int r) = r"
    using assms(2,3) by (simp add: size_t_of_int_pos)
  have r1: "size_t_of_int (int r + 1) = r + 1"
    using assms(2,3) size_t_of_int_pos [of "int r + 1"] by simp
  show ?thesis
    using assms(2) by (simp add: FileWriter_push_back_def Let_def assms(1) r r1 calcStats_keeps)
qed

lemma FileWriter_push_all_queues:
  assumes "length (m_workers fw) = n" and "0 < n" and "n < 2 ^ 64"
    and "m_roundRobin fw = int (c mod n)"
  shows "\<exists>fw'. FileWriter_push_all bs fw = Inr fw' \<and>
           m_roundRobin fw' = int ((c + length bs) mod n) \<and>
           map m_queue (m_workers fw') =
             map (\<lambda>j. m_queue (m_workers fw ! j) @
                        map snd (filter (\<lambda>(i, b). i mod n = j) (enumerate c bs)))
                 [0..<n]"
  using assms
proof (induction bs arbitrary: fw c)
  case Nil
  have "map m_queue (m_workers fw) = map (\<lambda>j. m_queue (m_workers fw ! j)) [0..<n]"
    using Nil.prems(1) by (intro nth_equalityI) simp_all
  then show ?case
    using Nil.prems(4) by simp
next
  case (Cons b bs)
  have rn: "c mod n < length (m_workers fw)"
    using Cons.prems by simp
  obtain fw1 where fw1: "FileWriter_push_back b fw = Inr fw1"
    and w1: "m_workers fw1 = (m_workers fw)[c mod n := Worker_push_back b (m_workers fw ! (c mod n))]"
    and r1: "m_roundRobin fw1 = (if c mod n + 1 = length (m_workers fw) then 0 else int (c mod n) + 1)"
    using FileWriter_push_back_in_range [OF Cons.prems(4) rn, of b] Cons.prems(1,3) by auto
  have r1': "m_roundRobin fw1 = int (Suc c mod n)"
    using r1 Cons.prems(1) by (simp add: mod_Suc)
  have len1: "length (m_workers fw1) = n"
    using w1 Cons.prems(1) by simp
  obtain fw' where fw': "FileWriter_push_all bs fw1 = Inr fw'"
    and rr: "m_roundRobin fw' = int ((Suc c + length bs) mod n)"
    and q: "map m_queue (m_workers fw') =
             map (\<lambda>j. m_queue (m_workers fw1 ! j) @
                        map snd (filter (\<lambda>(i, b). i mod n = j) (enumerate (Suc c) bs)))
                 [0..<n]"
    using Cons.IH [OF len1 Cons.prems(2,3) r1'] by auto
  have "map (\<lambda>j. m_queue (m_workers fw1 ! j) @
                        map snd (filter (\<lambda>(i, b). i mod n = j) (enumerate (Suc c) bs)))
                 [0..<n] =
        map (\<lambda>j. m_queue (m_workers fw ! j) @
                        map snd (filter (\<lambda>(i, b). i mod n = j) (enumerate c (b # bs))))
                 [0..<n]"
  proof (rule map_cong [OF refl])
    fix j assume "j \<in> set [0..<n]"
    then have j: "j < length (m_workers fw)"
      using Cons.prems(1) by simp
    show "m_queue (m_workers fw1 ! j) @
            map snd (filter (\<lambda>(i, b). i mod n = j) (enumerate (Suc c) bs)) =
          m_queue (m_workers fw ! j) @
            map snd (filter (\<lambda>(i, b). i mod n = j) (enumerate c (b # bs)))"
      using j by (simp add: w1 nth_list_update Worker_push_back_def)
  qed
  then show ?case
    using fw1 fw' rr q by simp
qed

text \<open>
  Claim C7. Let the file sink have \<open>N\<close> workers, \<open>N\<close> positive (\<open>N\<close> is an \<^verbatim>\<open>int\<close> in the
  source). Handing it the batches \<open>bs\<close> one after the other throws nothing; afterwards
  the round-robin index is \<open>length bs mod N\<close>, which lies between 0 and \<open>N - 1\<close>, and the
  queue of the worker at position \<open>j\<close> holds, in order, the batches whose number \<open>i\<close>
  (counted from 0) has \<open>i mod N = j\<close>. The next batch, whose number is \<open>length bs\<close>, is
  put into the queue of the worker at position \<open>length bs mod N\<close> and no other worker
  changes. The queues are those of the schedule in which no worker thread has run yet.
\<close>

theorem FileWriter_round_robin:
  assumes "0 < wrkCount" and "is_int wrkCount"
  shows "\<exists>fw fw'.
           FileWriter_push_all bs (FileWriter_new wrkCount) = Inr fw \<and>
           m_roundRobin fw = int (length bs mod nat wrkCount) \<and>
           0 \<le> m_roundRobin fw \<and> m_roundRobin fw < wrkCount \<and>
           map m_queue (m_workers fw) =
             map (\<lambda>j. map snd (filter (\<lambda>(i, b). i mod nat wrkCount = j) (enumerate 0 bs)))
                 [0..<nat wrkCount] \<and>
           FileWriter_push_back b fw = Inr fw' \<and>
           m_workers fw' =
             (m_workers fw)[length bs mod nat wrkCount :=
                Worker_push_back b (m_workers fw ! (length bs mod nat wrkCount))]"
proof -
  let ?n = "nat wrkCount"
  let ?fw0 = "FileWriter_new wrkCount"
  have n: "0 < ?n" "?n < 2 ^ 64"
    using assms by (simp_all add: is_int_def)
  have len0: "length (m_workers ?fw0) = ?n" and rr0: "m_roundRobin ?fw0 = int (0 mod ?n)"
    by (simp_all add: FileWriter_new_def)
  obtain fw where fw: "FileWriter_push_all bs ?fw0 = Inr fw"
    and rr: "m_roundRobin fw = int ((0 + length bs) mod ?n)"
    and q: "map m_queue (m_workers fw) =
             map (\<lambda>j. m_queue (m_workers ?fw0 ! j) @
                        map snd (filter (\<lambda>(i, b). i mod ?n = j) (enumerate 0 bs)))
                 [0..<?n]"
    using FileWriter_push_all_queues [OF len0 n rr0, of bs] by auto
  have q': "map m_queue (m_workers fw) =
             map (\<lambda>j. map snd (filter (\<lambda>(i, b). i mod ?n = j) (enumerate 0 bs))) [0..<?n]"
    unfolding q by (rule map_cong [OF refl]) (simp add: FileWriter_new_def Worker_new_def Worker_start_def)
  have len: "length (m_workers fw) = ?n"
    using arg_cong [OF q', of length] by simp
  have rr': "m_roundRobin fw = int (length bs mod ?n)"
    using rr by simp
  have lt: "length bs mod ?n < length (m_workers fw)"
    using n(1) len by simp
  obtain fw' where "FileWriter_push_back b fw = Inr fw'"
    and "m_workers fw' = (m_workers fw)[length bs mod ?n :=
                Worker_push_back b (m_workers fw ! (length bs mod ?n))]"
    using FileWriter_push_back_in_range [OF rr' lt, of b] n(2) len by auto
  moreover have "0 \<le> m_roundRobin fw"
    using rr' by simp
  moreover have "m_roundRobin fw < wrkCount"
  proof -
    have "length bs mod ?n < ?n"
      using n(1) by simp
    then have "int (length bs mod ?n) < int ?n"
      by (simp only: of_nat_less_iff)
    then show ?thesis
      using rr' assms(1) by simp
  qed
  ultimately show ?thesis
    using fw rr' q' by blast
qed

text \<open>
  With two workers and five batches: the first worker is handed the batches 0, 2, 4 and
  the second the batches 1, 3; the index before each of the five calls, and after the
  last, is 0, 1, 0, 1, 0, 1.
\<close>

theorem FileWriter_round_robin_witness:
  "0 < (2::int) \<and> is_int 2 \<and>
   map_sum id (\<lambda>fw. map m_queue (m_workers fw))
     (FileWriter_push_all [[''b0''], [''b1''], [''b2''], [''b3''], [''b4'']] (FileWriter_new 2)) =
     Inr [[[''b0''], [''b2''], [''b4'']], [[''b1''], [''b3'']]] \<and>
   map (\<lambda>bs. map_sum id m_roundRobin (FileWriter_push_all bs (FileWriter_new 2)))
     (prefixes [[''b0''], [''b1''], [''b2''], [''b3''], [''b4'']]) =
     [Inr 0, Inr 1, Inr 0, Inr 1, Inr 0, Inr 1]"
proof -
  let ?bs = "[[''b0''], [''b1''], [''b2''], [''b3''], [''b4'']]"
  have h: "0 < (2::int)" "is_int 2"
    by (simp_all add: is_int_def)
  obtain fw where fw: "FileWriter_push_all ?bs (FileWriter_new 2) = Inr fw"
    and q: "map m_queue (m_workers fw) =
             map (\<lambda>j. map snd (filter (\<lambda>(i, b). i mod nat 2 = j) (enumerate 0 ?bs))) [0..<nat 2]"
    using FileWriter_round_robin [OF h, of ?bs "[]"] by blast
  have "map m_queue (m_workers fw) = [[[''b0''], [''b2''], [''b4'']], [[''b1''], [''b3'']]]"
    unfolding q by (simp add: upt_2)
  then have queues: "map_sum id (\<lambda>fw. map m_queue (m_workers fw))
     (FileWriter_push_all ?bs (FileWriter_new 2)) =
     Inr [[[''b0''], [''b2''], [''b4'']], [[''b1''], [''b3'']]]"
    unfolding fw by simp
  have "map (\<lambda>bs. map_sum id m_roundRobin (FileWriter_push_all bs (FileWriter_new 2)))
     (prefixes ?bs) = [Inr 0, Inr 1, Inr 0, Inr 1, Inr 0, Inr 1]"
    by (simp add: FileWriter_push_back_def FileWriter_new_def calcStats_keeps Let_def
        size_t_of_int_def)
  then show ?thesis
    using h queues by blast
qed

subsection \<open>The statistics maps after stop\<close>

lemma ScreenWritter_stop_keeps_maps:
  "m_blockCount_map (ScreenWritter_stop s) = m_blockCount_map s"
  "m_commandCount_map (ScreenWritter_stop s) = m_commandCount_map s"
  by (simp_all add: ScreenWritter_stop_def)

lemma initStats_dom:
  "dom (m_blockCount_map (initStats k s)) = insert k (dom (m_blockCount_map s))"
  "dom (m_commandCount_map (initStats k s)) = insert k (dom (m_commandCount_map s))"
  by (auto simp add: initStats_def Let_def)

lemma FileWriter_stop_at_dom:
  "dom (m_blockCount_map (FileWriter_stop_at i fw)) = insert i (dom (m_blockCount_map fw))"
  "dom (m_commandCount_map (FileWriter_stop_at i fw)) = insert i (dom (m_commandCount_map fw))"
  "length (m_workers (FileWriter_stop_at i fw)) = length (m_workers fw)"
  by (simp_all add: FileWriter_stop_at_def Let_def initStats_dom initStats_keeps)

lemma fold_stop_at_dom:
  "dom (m_blockCount_map (fold FileWriter_stop_at is fw)) = set is \<union> dom (m_blockCount_map fw)"
  "dom (m_commandCount_map (fold FileWriter_stop_at is fw)) = set is \<union> dom (m_commandCount_map fw)"
  by (induction "is" arbitrary: fw; simp add: FileWriter_stop_at_dom)+

lemma FileWriter_stop_covers_pool:
  "{0..<length (m_workers fw)} \<subseteq> dom (m_blockCount_map (FileWriter_stop fw))"
  "{0..<length (m_workers fw)} \<subseteq> dom (m_commandCount_map (FileWriter_stop fw))"
  by (simp_all add: FileWriter_stop_def fold_stop_at_dom)

text \<open>
  Claim C8, at the input on which the code departs from it. When the input is empty no
  batch is published. After \<^verbatim>\<open>main\<close> has stopped the two sinks, the worker of the screen
  sink is stopped and neither map of the screen sink has an entry for it, while both
  maps of the file sink hold the entry 0 for each of its two workers.
\<close>

theorem ScreenWritter_stop_without_batches:
  "\<exists>s. main_sinks bulkCount [] = Inr s \<and>
        m_running (m_worker (screenWritter s)) = False \<and>
        m_blockCount_map (screenWritter s) 0 = None \<and>
        m_commandCount_map (screenWritter s) 0 = None \<and>
        map m_running (m_workers (fileWriter s)) = [False, False] \<and>
        map (m_blockCount_map (fileWriter s)) [0, 1] = [Some 0, Some 0] \<and>
        map (m_commandCount_map (fileWriter s)) [0, 1] = [Some 0, Some 0]"
  by (simp add: main_sinks_def exec_def exec_loop_def exec_entry_def publish_commands_def
      publish_def subscribe_def Parser_new_def ScreenWritter_new_def ScreenWritter_stop_def
      FileWriter_new_def FileWriter_stop_def FileWriter_stop_at_def initStats_def
      Worker_new_def Worker_start_def Worker_stop_def Let_def upt_2 numeral_2_eq_2)

end
